theory Spec2Isabelle
  imports Complex_Main "HOL-Library.Log_Nat"
begin

section \<open>Activity ranking service: the scoring engine\<close>

text \<open>
  A shallow embedding of \<^verbatim>\<open>src/backend/src/services/activityRankingService.js\<close>.

  JavaScript numbers are IEEE binary64 values, and every arithmetic operator returns the
  exact result rounded to the nearest binary64 value, a tie going to the even
  significand. They are modelled as follows.
  \<^item> A finite number is a \<^typ>\<open>real\<close>. \<open>round_double\<close> rounds a real to binary64, with the
    subnormal numbers at the lower end of the exponent range and no bound at the upper
    end; \<open>to_double\<close> adds the bound: a rounded magnitude of \<open>2^1024\<close> or more is an
    infinity.
  \<^item> A weather field and a per-day score is a finite number. The operators of the scoring
    functions are \<open>times64\<close>, \<open>plus64\<close> and \<open>minus64\<close>, the exact result rounded by
    \<open>round_double\<close>. The only results of the source that can leave the binary64 range
    are those of \<^verbatim>\<open>snowfall * 5\<close> and \<^verbatim>\<open>precipitation * 2\<close>, for a field above
    \<open>2^1021\<close>. The source passes the first to \<^verbatim>\<open>Math.min(50, ...)\<close>, which returns 50,
    and subtracts the second from the score, which the final clamp then sets to 0; both
    happen with the infinity of binary64 and with the finite value beyond the range
    alike, so the score is the same.
  \<^item> The total and the average of \<^verbatim>\<open>calculateActivityRankings\<close> have the type
    \<open>number\<close>, the finite numbers with the two infinities and NaN: the average
    over an empty array is \<^verbatim>\<open>0 / 0\<close>, which is NaN.
  \<^item> The sign of a zero is not modelled: every zero of the program is the literal 0, the
    length of an array or the result of \<^verbatim>\<open>Math.max(0, ...)\<close>, all of them +0.
\<close>

subsection \<open>Rounding to binary64\<close>

text \<open>
  The binade of a non-zero number \<open>x\<close>: the exponent \<open>e\<close> with
  \<open>2^e \<le> |x| < 2^(e + 1)\<close>, computed from the bit length of the integer part of \<open>|x|\<close>
  or of its reciprocal.
\<close>

definition binade :: "real \<Rightarrow> int" where
  "binade x =
     (if \<bar>x\<bar> \<ge> 1 then bitlen \<lfloor>\<bar>x\<bar>\<rfloor> - 1 else - bitlen (\<lceil>1 / \<bar>x\<bar>\<rceil> - 1))"

text \<open>The nearest integer, a tie going to the even one.\<close>

definition round_even :: "real \<Rightarrow> int" where
  "round_even r =
     (let f = \<lfloor>r\<rfloor>; d = r - of_int f
      in if d < 1 / 2 then f else if d > 1 / 2 then f + 1 else if even f then f else f + 1)"

text \<open>
  The spacing of the binary64 values around \<open>x\<close>: 52 fraction bits below the binade, and
  the binade of the subnormal numbers is that of the smallest normal ones, -1022.
\<close>

definition quantum :: "real \<Rightarrow> real" where
  "quantum x = 2 powi (max (binade x) (- 1022) - 52)"

definition round_double :: "real \<Rightarrow> real" where
  "round_double x = (if x = 0 then 0 else of_int (round_even (x / quantum x)) * quantum x)"

text \<open>The operators \<^verbatim>\<open>*\<close>, \<^verbatim>\<open>+\<close> and \<^verbatim>\<open>-\<close> of the scoring functions.\<close>

definition times64 :: "real \<Rightarrow> real \<Rightarrow> real" where
  "times64 a b = round_double (a * b)"

definition plus64 :: "real \<Rightarrow> real \<Rightarrow> real" where
  "plus64 a b = round_double (a + b)"

definition minus64 :: "real \<Rightarrow> real \<Rightarrow> real" where
  "minus64 a b = round_double (a - b)"

subsection \<open>Numbers with infinities and NaN\<close>

datatype number = Num real | PosInfinity | NegInfinity | NaN

definition to_double :: "real \<Rightarrow> number" where
  "to_double x =
     (let y = round_double x
      in if \<bar>y\<bar> \<ge> 2 ^ 1024 then (if y > 0 then PosInfinity else NegInfinity) else Num y)"

text \<open>The operator \<^verbatim>\<open>+\<close> on numbers.\<close>

definition js_add :: "number \<Rightarrow> number \<Rightarrow> number" where
  "js_add x y =
     (case x of
        NaN \<Rightarrow> NaN
      | Num a \<Rightarrow> (case y of Num b \<Rightarrow> to_double (a + b) | other \<Rightarrow> other)
      | PosInfinity \<Rightarrow> (case y of NegInfinity \<Rightarrow> NaN | NaN \<Rightarrow> NaN | other \<Rightarrow> PosInfinity)
      | NegInfinity \<Rightarrow> (case y of PosInfinity \<Rightarrow> NaN | NaN \<Rightarrow> NaN | other \<Rightarrow> NegInfinity))"

text \<open>The operator \<^verbatim>\<open>/\<close> on numbers; \<^verbatim>\<open>0 / 0\<close> is NaN.\<close>

definition js_divide :: "number \<Rightarrow> number \<Rightarrow> number" where
  "js_divide x y =
     (case x of
        NaN \<Rightarrow> NaN
      | Num a \<Rightarrow>
          (case y of
             Num b \<Rightarrow>
               (if b = 0 then (if a = 0 then NaN else if a > 0 then PosInfinity else NegInfinity)
                else to_double (a / b))
           | NaN \<Rightarrow> NaN
           | other \<Rightarrow> Num 0)
      | PosInfinity \<Rightarrow>
          (case y of Num b \<Rightarrow> (if b \<ge> 0 then PosInfinity else NegInfinity) | other \<Rightarrow> NaN)
      | NegInfinity \<Rightarrow>
          (case y of Num b \<Rightarrow> (if b \<ge> 0 then NegInfinity else PosInfinity) | other \<Rightarrow> NaN))"

text \<open>
  \<^verbatim>\<open>Math.round\<close>: the nearest integer, a tie going to the larger one; the non-finite
  values are returned as they are.
\<close>

definition Math_round :: "number \<Rightarrow> number" where
  "Math_round x = (case x of Num r \<Rightarrow> Num (of_int \<lfloor>r + 1 / 2\<rfloor>) | other \<Rightarrow> other)"

text \<open>The comparison \<^verbatim>\<open>x >= c\<close> of a number with a finite constant; it is false on NaN.\<close>

definition js_ge :: "number \<Rightarrow> real \<Rightarrow> bool" where
  "js_ge x c = (case x of Num r \<Rightarrow> r \<ge> c | PosInfinity \<Rightarrow> True | NegInfinity \<Rightarrow> False | NaN \<Rightarrow> False)"

subsection \<open>Data\<close>

text \<open>One day of the forecast, as \<^verbatim>\<open>getWeatherForecast\<close> builds it.\<close>

record DailyWeather =
  date :: string
  maxTemp :: real
  minTemp :: real
  precipitation :: real
  windSpeed :: real
  snowfall :: real
  cloudCover :: real

text \<open>
  An entry of \<^verbatim>\<open>dailyScores\<close>. Both records have a field \<open>date\<close>; below, \<open>date\<close>
  alone is the field of this record and \<open>DailyWeather.date\<close> the field of a forecast day.
\<close>

record ActivityDayScore =
  date :: string
  score :: real
  conditions :: string

record ActivityRanking =
  activity :: string
  averageScore :: number
  dailyScores :: "ActivityDayScore list"
  recommendation :: string

text \<open>An entry of the table \<^verbatim>\<open>activities\<close> of \<^verbatim>\<open>calculateActivityRankings\<close>.\<close>

record Activity =
  name :: string
  scoreFn :: "DailyWeather \<Rightarrow> real"

subsection \<open>The four scoring functions\<close>

text \<open>
  Each function updates a local variable \<^verbatim>\<open>score\<close> in a sequence of \<^verbatim>\<open>if\<close> statements;
  the model names the value after each statement \<open>s1\<close>, \<open>s2\<close>, ... and returns
  \<^verbatim>\<open>Math.max(0, Math.min(100, score))\<close>. \<^verbatim>\<open>Math.min\<close> and \<^verbatim>\<open>Math.max\<close> round nothing.
\<close>

definition scoreSkiing :: "DailyWeather \<Rightarrow> real" where
  "scoreSkiing weather =
     (let s0 = 0;
          s1 = (if snowfall weather > 0
                then plus64 s0 (min 50 (times64 (snowfall weather) 5)) else s0);
          s2 = (if maxTemp weather < 2 then plus64 s1 30
                else if maxTemp weather < 7 then plus64 s1 15 else s1);
          s3 = (if windSpeed weather > 40 then minus64 s2 15 else s2);
          s4 = (if precipitation weather > 5 then minus64 s3 10 else s3)
      in max 0 (min 100 s4))"

definition scoreSurfing :: "DailyWeather \<Rightarrow> real" where
  "scoreSurfing weather =
     (let s0 = 50;
          s1 = (if windSpeed weather > 10 \<and> windSpeed weather < 35 then plus64 s0 25
                else if windSpeed weather > 40 then minus64 s0 20 else s0);
          s2 = (if maxTemp weather > 18 then plus64 s1 20 else s1);
          s3 = (if precipitation weather > 8 then minus64 s2 15 else s2)
      in max 0 (min 100 s3))"

definition scoreOutdoorSightseeing :: "DailyWeather \<Rightarrow> real" where
  "scoreOutdoorSightseeing weather =
     (let s0 = 60;
          s1 = (if cloudCover weather < 40 then plus64 s0 20
                else if cloudCover weather > 80 then minus64 s0 10 else s0);
          s2 = (if maxTemp weather \<ge> 15 \<and> maxTemp weather \<le> 28 then plus64 s1 20
                else if maxTemp weather < 5 \<or> maxTemp weather > 35 then minus64 s1 20 else s1);
          s3 = (if precipitation weather > 0
                then minus64 s2 (times64 (precipitation weather) 2) else s2)
      in max 0 (min 100 s3))"

definition scoreIndoorSightseeing :: "DailyWeather \<Rightarrow> real" where
  "scoreIndoorSightseeing weather =
     (let s0 = 70;
          s1 = (if precipitation weather > 5 then plus64 s0 15 else s0);
          s2 = (if maxTemp weather < 5 \<or> maxTemp weather > 30 then plus64 s1 15 else s1);
          s3 = (if precipitation weather = 0 \<and> cloudCover weather < 50 \<and>
                   maxTemp weather > 15 \<and> maxTemp weather < 25 then minus64 s2 20 else s2)
      in max 0 (min 100 s3))"

subsection \<open>Labels and recommendation\<close>

definition getConditionDescription :: "real \<Rightarrow> string" where
  "getConditionDescription s =
     (if s \<ge> 75 then ''Great''
      else if s \<ge> 60 then ''Good''
      else if s \<ge> 40 then ''OK''
      else ''Poor'')"

definition getRecommendation :: "string \<Rightarrow> number \<Rightarrow> string" where
  "getRecommendation act avgScore =
     (if js_ge avgScore 70 then ''Perfect week for '' @ act @ ''!''
      else if js_ge avgScore 50 then ''Decent conditions for '' @ act @ '' this week.''
      else ''Not the best week for '' @ act @ ''.'')"

subsection \<open>The aggregation\<close>

definition activities :: "Activity list" where
  "activities =
     [\<lparr>name = ''Skiing'', scoreFn = scoreSkiing\<rparr>,
      \<lparr>name = ''Surfing'', scoreFn = scoreSurfing\<rparr>,
      \<lparr>name = ''Outdoor Sightseeing'', scoreFn = scoreOutdoorSightseeing\<rparr>,
      \<lparr>name = ''Indoor Sightseeing'', scoreFn = scoreIndoorSightseeing\<rparr>]"

text \<open>
  The body of the outer \<^verbatim>\<open>activities.map\<close>: the ranking of one activity. The inner
  \<^verbatim>\<open>weatherData.map\<close> calls the scoring function twice for each day, once for the score
  and once for the label; \<^verbatim>\<open>reduce\<close> folds from the left, starting at 0, and the total
  is divided by the length.
\<close>

definition rankActivity :: "DailyWeather list \<Rightarrow> Activity \<Rightarrow> ActivityRanking" where
  "rankActivity weatherData act =
     (let dailyScores =
            map (\<lambda>day. \<lparr>date = DailyWeather.date day,
                         score = scoreFn act day,
                         conditions = getConditionDescription (scoreFn act day)\<rparr>) weatherData;
          totalScore = foldl (\<lambda>sum day. js_add sum (Num (score day))) (Num 0) dailyScores;
          averageScore = Math_round (js_divide totalScore (Num (real (length dailyScores))))
      in \<lparr>activity = name act,
          averageScore = averageScore,
          dailyScores = dailyScores,
          recommendation = getRecommendation (name act) averageScore\<rparr>)"

definition calculateActivityRankings :: "DailyWeather list \<Rightarrow> ActivityRanking list" where
  "calculateActivityRankings weatherData = map (rankActivity weatherData) activities"

subsection \<open>The rules as the specification words them\<close>

text \<open>
  The definitions of this subsection follow the wording of the specification, not the
  code; the theorems below compare them with the functions above.
\<close>

definition spec_clamp :: "real \<Rightarrow> real" where
  "spec_clamp x = (if x < 0 then 0 else if x > 100 then 100 else x)"

text \<open>
  Skiing: baseline 0; add \<open>min(50, snowfall * 5)\<close> if \<open>snowfall > 0\<close>; add 30 if
  \<open>maxTemp < 2\<close>, else add 15 if \<open>maxTemp < 7\<close>; subtract 15 if \<open>windSpeed > 40\<close>;
  subtract 10 if \<open>precipitation > 5\<close>; clamp to [0, 100]. All arithmetic is evaluated in
  floating point: the four contributions are added to and subtracted from the
  baseline in this order, a contribution that does not apply being 0.
\<close>

definition spec_scoreSkiing :: "DailyWeather \<Rightarrow> real" where
  "spec_scoreSkiing w =
     spec_clamp
       (minus64
         (minus64
           (plus64
             (plus64 0 (if snowfall w > 0 then min 50 (times64 (snowfall w) 5) else 0))
             (if maxTemp w < 2 then 30 else if maxTemp w < 7 then 15 else 0))
           (if windSpeed w > 40 then 15 else 0))
         (if precipitation w > 5 then 10 else 0))"

text \<open>
  Surfing, the wind rule: add 25 if \<open>10 < windSpeed < 35\<close>, else subtract 20 if
  \<open>windSpeed > 40\<close>.
\<close>

definition spec_surfingWind :: "real \<Rightarrow> real" where
  "spec_surfingWind v = (if 10 < v \<and> v < 35 then 25 else if v > 40 then - 20 else 0)"

text \<open>The mean of a sequence of scores, and rounding to the nearest integer, a tie going up.\<close>

definition spec_mean :: "real list \<Rightarrow> real" where
  "spec_mean xs = sum_list xs / real (length xs)"

definition spec_roundHalfUp :: "real \<Rightarrow> int" where
  "spec_roundHalfUp x = (if x - of_int \<lfloor>x\<rfloor> < 1 / 2 then \<lfloor>x\<rfloor> else \<lfloor>x\<rfloor> + 1)"

subsection \<open>Example days\<close>

text \<open>A calm, half-clouded day at 10 degrees with 0.25 mm of rain.\<close>

definition drizzleDay :: DailyWeather where
  "drizzleDay =
     \<lparr>DailyWeather.date = ''2024-01-01'', maxTemp = 10, minTemp = 5, precipitation = 1 / 4,
      windSpeed = 5, snowfall = 0, cloudCover = 50\<rparr>"

text \<open>A warm day with wind in the interval [35, 40].\<close>

definition breezyDay :: DailyWeather where
  "breezyDay =
     \<lparr>DailyWeather.date = ''2024-01-02'', maxTemp = 25, minTemp = 15, precipitation = 0,
      windSpeed = 37, snowfall = 0, cloudCover = 10\<rparr>"




section \<open>Rounding to binary64\<close>

subsection \<open>The binade\<close>

lemma pow2_le_real: "(2::int) ^ k \<le> n \<Longrightarrow> (2::real) ^ k \<le> real_of_int n"
proof -
  assume "(2::int) ^ k \<le> n"
  then have "real_of_int (2 ^ k) \<le> real_of_int n"
    by (simp only: of_int_le_iff)
  then show ?thesis by simp
qed

lemma real_le_pow2: "n \<le> (2::int) ^ k \<Longrightarrow> real_of_int n \<le> (2::real) ^ k"
proof -
  assume "n \<le> (2::int) ^ k"
  then have "real_of_int n \<le> real_of_int (2 ^ k)"
    by (simp only: of_int_le_iff)
  then show ?thesis by simp
qed

lemma binade_bounds:
  assumes "x \<noteq> 0"
  shows "2 powi binade x \<le> \<bar>x\<bar> \<and> \<bar>x\<bar> < 2 powi (binade x + 1)"
proof (cases "\<bar>x\<bar> \<ge> 1")
  case True
  define n where "n = \<lfloor>\<bar>x\<bar>\<rfloor>"
  have n: "n > 0" using True by (simp add: n_def)
  have e: "binade x = bitlen n - 1" using True by (simp add: binade_def n_def)
  have b1: "bitlen n \<ge> 1" using n by (simp add: bitlen_alt_def)
  from bitlen_bounds [OF n] have lo: "2 ^ nat (bitlen n - 1) \<le> n" and hi: "n < 2 ^ nat (bitlen n)"
    by simp_all
  have "(2::real) ^ nat (bitlen n - 1) \<le> real_of_int n"
    using lo by (rule pow2_le_real)
  also have "\<dots> \<le> \<bar>x\<bar>" by (simp add: n_def)
  finally have 1: "2 powi (bitlen n - 1) \<le> \<bar>x\<bar>"
    using b1 by (simp add: power_int_def)
  have "n + 1 \<le> 2 ^ nat (bitlen n)" using hi by simp
  then have "real_of_int (n + 1) \<le> 2 ^ nat (bitlen n)"
    by (rule real_le_pow2)
  moreover have "\<bar>x\<bar> < real_of_int (n + 1)" by (simp add: n_def)
  ultimately have 2: "\<bar>x\<bar> < 2 powi (bitlen n)"
    using b1 by (simp add: power_int_def)
  from 1 2 e show ?thesis by simp
next
  case False
  define t where "t = 1 / \<bar>x\<bar>"
  have xpos: "0 < \<bar>x\<bar>" using assms by simp
  have t1: "1 < t" using False xpos by (simp add: t_def)
  define m where "m = \<lceil>t\<rceil> - 1"
  have m: "m > 0" using t1 by (simp add: m_def)
  have e: "binade x = - bitlen m" using False by (simp add: binade_def m_def t_def)
  have b1: "bitlen m \<ge> 1" using m by (simp add: bitlen_alt_def)
  from bitlen_bounds [OF m] have lo: "2 ^ nat (bitlen m - 1) \<le> m" and hi: "m < 2 ^ nat (bitlen m)"
    by simp_all
  have "m + 1 \<le> 2 ^ nat (bitlen m)" using hi by simp
  then have "real_of_int (m + 1) \<le> 2 ^ nat (bitlen m)"
    by (rule real_le_pow2)
  moreover have "t \<le> real_of_int (m + 1)" by (simp add: m_def)
  ultimately have "t \<le> 2 ^ nat (bitlen m)" by linarith
  then have "1 / 2 ^ nat (bitlen m) \<le> \<bar>x\<bar>"
    using xpos by (simp add: t_def field_simps)
  then have 1: "2 powi (- bitlen m) \<le> \<bar>x\<bar>"
    using b1 by (simp add: power_int_def inverse_eq_divide power_one_over)
  have "(2::real) ^ nat (bitlen m - 1) \<le> real_of_int m"
    using lo by (rule pow2_le_real)
  moreover have "real_of_int m < t" by (simp add: m_def) linarith
  ultimately have "2 ^ nat (bitlen m - 1) < t" by linarith
  then have "\<bar>x\<bar> < 1 / 2 ^ nat (bitlen m - 1)"
    using xpos by (simp add: t_def field_simps)
  then have 2: "\<bar>x\<bar> < 2 powi (- bitlen m + 1)"
    using b1 by (auto simp add: power_int_def inverse_eq_divide power_one_over nat_diff_distrib)
  from 1 2 e show ?thesis by simp
qed

lemma binade_le:
  assumes "x \<noteq> 0" and "\<bar>x\<bar> < 2 powi (a + 1)"
  shows "binade x \<le> a"
proof (rule ccontr)
  assume "\<not> binade x \<le> a"
  then have "a + 1 \<le> binade x" by simp
  then have "(2::real) powi (a + 1) \<le> 2 powi binade x"
    by (intro power_int_increasing) simp_all
  with binade_bounds [OF assms(1)] assms(2) show False by linarith
qed

lemma binade_ge:
  assumes "x \<noteq> 0" and "2 powi a \<le> \<bar>x\<bar>"
  shows "a \<le> binade x"
proof (rule ccontr)
  assume "\<not> a \<le> binade x"
  then have "binade x + 1 \<le> a" by simp
  then have "(2::real) powi (binade x + 1) \<le> 2 powi a"
    by (intro power_int_increasing) simp_all
  with binade_bounds [OF assms(1)] assms(2) show False by linarith
qed

subsection \<open>Rounding\<close>

lemma round_even_of_int: "round_even (of_int m) = m"
  by (simp add: round_even_def)

lemma round_even_close: "\<bar>of_int (round_even r) - r\<bar> \<le> 1 / 2"
proof -
  have "of_int \<lfloor>r\<rfloor> \<le> r" "r < of_int \<lfloor>r\<rfloor> + 1"
    by linarith+
  then show ?thesis
    by (auto simp add: round_even_def Let_def)
qed

lemma round_even_bounds: "\<lfloor>r\<rfloor> \<le> round_even r \<and> round_even r \<le> \<lceil>r\<rceil>"
proof -
  have "of_int \<lfloor>r\<rfloor> \<le> r" "r < of_int \<lfloor>r\<rfloor> + 1"
    by linarith+
  moreover have "\<lceil>r\<rceil> = \<lfloor>r\<rfloor> + 1" if "r - of_int \<lfloor>r\<rfloor> > 0"
    using that by (intro ceiling_unique) linarith+
  ultimately show ?thesis
    by (auto simp add: round_even_def Let_def)
qed

lemma quantum_pos: "0 < quantum x"
  by (simp add: quantum_def)

lemma round_double_zero: "round_double 0 = 0"
  by (simp add: round_double_def)

lemma round_double_exact:
  assumes "x = of_int m / 2" and "\<bar>x\<bar> < 2 ^ 52"
  shows "round_double x = x"
proof (cases "x = 0")
  case True
  then show ?thesis by (simp add: round_double_def)
next
  case False
  then have "m \<noteq> 0" using assms(1) by auto
  then have "1 \<le> \<bar>real_of_int m\<bar>" by simp
  then have half: "1 / 2 \<le> \<bar>x\<bar>" using assms(1) by simp
  have lo: "- 1 \<le> binade x"
    using False half by (intro binade_ge) (simp_all add: power_int_minus inverse_eq_divide)
  have hi: "binade x \<le> 51"
    using False assms(2) by (intro binade_le) simp_all
  define k where "k = nat (51 - binade x)"
  have e: "binade x = 51 - int k" using hi by (simp add: k_def)
  have q: "quantum x = 1 / 2 ^ Suc k"
    using lo hi unfolding quantum_def e
    by (simp add: power_int_def inverse_eq_divide power_one_over max_def nat_add_distrib)
  have "x / quantum x = of_int (m * 2 ^ k)"
    unfolding q by (simp add: assms(1))
  then have "round_even (x / quantum x) = m * 2 ^ k"
    by (simp only: round_even_of_int)
  then have "of_int (round_even (x / quantum x)) * quantum x = x"
    unfolding q by (simp add: assms(1))
  with False show ?thesis
    by (simp add: round_double_def)
qed

lemma round_double_of_int:
  assumes "\<bar>m\<bar> < 2 ^ 52"
  shows "round_double (of_int m) = of_int m"
proof -
  have "\<bar>real_of_int m\<bar> < 2 ^ 52"
    using assms by (metis of_int_abs of_int_less_numeral_power_cancel_iff)
  moreover have "real_of_int m = of_int (2 * m) / 2" by simp
  ultimately show ?thesis by (rule round_double_exact [rotated])
qed

lemma round_double_numeral:
  "(numeral k :: int) < 2 ^ 52 \<Longrightarrow> round_double (numeral k) = numeral k"
  "(numeral k :: int) < 2 ^ 52 \<Longrightarrow> round_double (- numeral k) = - numeral k"
  using round_double_of_int [of "numeral k"] round_double_of_int [of "- numeral k"]
  by simp_all

lemma round_double_close:
  assumes "0 < x" and "x < 128"
  shows "\<bar>round_double x - x\<bar> \<le> 1 / 2 ^ 47"
proof -
  have nz: "x \<noteq> 0" using assms by simp
  have hi: "binade x \<le> 6"
    using nz assms by (intro binade_le) simp_all
  have qpos: "0 < quantum x" by (rule quantum_pos)
  have "quantum x \<le> 2 powi (- 46)"
    unfolding quantum_def using hi by (intro power_int_increasing) simp_all
  then have qle: "quantum x \<le> 1 / 2 ^ 46"
    by (simp add: power_int_minus inverse_eq_divide)
  define y where "y = of_int (round_even (x / quantum x)) * quantum x"
  have "\<bar>of_int (round_even (x / quantum x)) - x / quantum x\<bar> \<le> 1 / 2"
    by (rule round_even_close)
  then have "\<bar>of_int (round_even (x / quantum x)) - x / quantum x\<bar> * quantum x \<le> 1 / 2 * quantum x"
    using qpos by (intro mult_right_mono) simp_all
  moreover have "(of_int (round_even (x / quantum x)) - x / quantum x) * quantum x = y - x"
    using qpos by (simp add: y_def left_diff_distrib)
  then have "\<bar>of_int (round_even (x / quantum x)) - x / quantum x\<bar> * quantum x = \<bar>y - x\<bar>"
    using qpos by (metis abs_mult abs_of_pos)
  ultimately have "\<bar>y - x\<bar> \<le> 1 / 2 * quantum x" by simp
  with qle have "\<bar>y - x\<bar> \<le> 1 / 2 ^ 47" by simp
  with nz show ?thesis
    by (simp add: round_double_def y_def)
qed


subsection \<open>Rounded values are not rounded again\<close>

lemma round_even_int: "t \<in> \<int> \<Longrightarrow> of_int (round_even t) = t"
  by (auto elim!: Ints_cases simp add: round_even_of_int)

lemma pow2_int: "0 \<le> k \<Longrightarrow> (2::real) powi k \<in> \<int>"
  by (simp add: power_int_def)

lemma pow2_add: "(2::real) powi (a + b) = 2 powi a * 2 powi b"
  by (rule power_int_add) simp

lemma pow2_split: "c = a + b \<Longrightarrow> (2::real) powi c = 2 powi a * 2 powi b"
  by (simp only: pow2_add)

lemma round_double_idem: "round_double (round_double x) = round_double x"
proof (cases "x = 0")
  case True
  then show ?thesis by (simp add: round_double_def)
next
  case False
  define E where "E = max (binade x) (- 1022)"
  define q where "q = (2::real) powi (E - 52)"
  define r where "r = round_even (x / q)"
  define y where "y = of_int r * q"
  have qpos: "0 < q" by (simp add: q_def)
  have y: "round_double x = y"
    using False by (simp add: round_double_def y_def r_def q_def E_def quantum_def)
  have E: "- 1022 \<le> E" "binade x \<le> E" by (simp_all add: E_def)
  have "\<bar>x\<bar> < 2 powi (binade x + 1)"
    using binade_bounds [OF False] by simp
  also have "\<dots> \<le> 2 powi (E + 1)"
    using E(2) by (intro power_int_increasing) simp_all
  finally have xlt: "\<bar>x\<bar> < 2 powi (E + 1)" .
  have scale: "2 powi (E + 1) = 2 ^ 53 * q"
  proof -
    have "(2::real) powi (E + 1) = 2 powi 53 * 2 powi (E - 52)"
      by (rule pow2_split) simp
    then show ?thesis by (simp add: q_def)
  qed
  have tlt: "\<bar>x / q\<bar> < 2 ^ 53"
    using xlt qpos by (simp add: scale pos_divide_less_eq)
  have rle: "\<bar>r\<bar> \<le> 2 ^ 53"
  proof -
    have "x / q \<le> 2 ^ 53" "- (2 ^ 53) \<le> x / q"
      using tlt unfolding abs_less_iff by linarith+
    then have "\<lceil>x / q\<rceil> \<le> 2 ^ 53" "- (2 ^ 53) \<le> \<lfloor>x / q\<rfloor>"
      by (simp_all add: ceiling_le_iff le_floor_iff)
    with round_even_bounds [of "x / q"] show ?thesis
      unfolding r_def by linarith
  qed
  show ?thesis
  proof (cases "r = 0")
    case True
    then show ?thesis
      unfolding y by (simp add: y_def round_double_def)
  next
    case rnz: False
    then have ynz: "y \<noteq> 0"
      using qpos by (simp add: y_def)
    have yabs: "\<bar>y\<bar> = of_int \<bar>r\<bar> * q"
      using qpos by (simp add: y_def abs_mult)
    define Q where "Q = quantum y"
    have Qpos: "0 < Q" by (simp add: Q_def quantum_pos)
    have "y / Q \<in> \<int>"
    proof (cases "\<bar>r\<bar> = 2 ^ 53")
      case True
      then have ya: "\<bar>y\<bar> = 2 powi (E + 1)"
        by (simp add: yabs scale)
      have "binade y = E + 1"
      proof (rule antisym)
        have "\<bar>y\<bar> < 2 powi (E + 1 + 1)"
          unfolding ya by (intro power_int_strict_increasing) simp_all
        with ynz show "binade y \<le> E + 1" by (rule binade_le)
        show "E + 1 \<le> binade y"
          using ynz by (rule binade_ge) (simp add: ya)
      qed
      then have "Q = 2 powi (E + 1 - 52)"
        using E(1) by (simp add: Q_def quantum_def max_def)
      also have "\<dots> = 2 powi 1 * 2 powi (E - 52)"
        by (rule pow2_split) simp
      finally have qy: "Q = 2 * q" by (simp add: q_def)
      have "y / Q = of_int r / 2"
        unfolding qy y_def using qpos by simp
      moreover have "r = 2 * 2 ^ 52 \<or> r = 2 * (- (2 ^ 52))"
        using True by (simp add: abs_if split: if_splits)
      then have "real_of_int r / 2 = of_int (2 ^ 52) \<or> real_of_int r / 2 = of_int (- (2 ^ 52))"
        by (elim disjE) (simp_all only: of_int_mult of_int_numeral nonzero_mult_div_cancel_left, simp_all)
      then have "real_of_int r / 2 \<in> \<int>"
        by (elim disjE) (simp_all only: Ints_of_int)
      ultimately show ?thesis by (simp only:)
    next
      case False
      with rle have "\<bar>r\<bar> < 2 ^ 53" by simp
      then have "real_of_int \<bar>r\<bar> < 2 ^ 53"
        by (metis of_int_less_numeral_power_cancel_iff)
      then have "\<bar>y\<bar> < 2 powi (E + 1)"
        using qpos by (simp add: yabs scale)
      with ynz have "binade y \<le> E" by (rule binade_le)
      define E' where "E' = max (binade y) (- 1022)"
      have E': "E' \<le> E" using \<open>binade y \<le> E\<close> E(1) by (simp add: E'_def)
      have qy: "Q = 2 powi (E' - 52)" by (simp add: Q_def quantum_def E'_def)
      have "q = 2 powi (E - E') * 2 powi (E' - 52)"
        unfolding q_def by (rule pow2_split) simp
      then have "q = 2 powi (E - E') * Q" by (simp add: qy)
      then have "y / Q = of_int r * 2 powi (E - E')"
        unfolding y_def using Qpos by simp
      moreover have "(2::real) powi (E - E') \<in> \<int>"
        using E' by (intro pow2_int) simp
      ultimately show ?thesis by simp
    qed
    then have "of_int (round_even (y / Q)) * Q = y"
      using Qpos by (simp add: round_even_int)
    with ynz show ?thesis
      unfolding y by (simp add: round_double_def Q_def)
  qed
qed

subsection \<open>Finite results\<close>

lemma to_double_finite:
  "\<bar>round_double x\<bar> < 2 ^ 1024 \<Longrightarrow> to_double x = Num (round_double x)"
  by (simp add: to_double_def Let_def)

lemma to_double_exact:
  assumes "x = of_int m / 2" and "\<bar>x\<bar> < 2 ^ 52"
  shows "to_double x = Num x"
proof -
  have r: "round_double x = x"
    using assms by (rule round_double_exact)
  have "\<bar>x\<bar> < 2 ^ 1024"
    using assms(2) by (rule less_trans) simp
  then show ?thesis
    using to_double_finite [of x] by (simp add: r)
qed

lemma to_double_of_int:
  assumes "\<bar>m\<bar> < 2 ^ 52"
  shows "to_double (of_int m) = Num (of_int m)"
proof -
  have "\<bar>real_of_int m\<bar> < 2 ^ 52"
    using assms by (metis of_int_abs of_int_less_numeral_power_cancel_iff)
  moreover have "real_of_int m = of_int (2 * m) / 2" by simp
  ultimately show ?thesis by (rule to_double_exact [rotated])
qed

lemma to_double_close:
  assumes "0 < x" and "x < 128"
  shows "\<exists>y. to_double x = Num y \<and> \<bar>y - x\<bar> \<le> 1 / 2 ^ 47"
proof -
  have close: "\<bar>round_double x - x\<bar> \<le> 1 / 2 ^ 47"
    using assms by (rule round_double_close)
  moreover have "(1::real) / 2 ^ 47 \<le> 1" by simp
  ultimately have "\<bar>round_double x\<bar> < 129" using assms by linarith
  then have "\<bar>round_double x\<bar> < 2 ^ 1024"
    by (rule less_trans) simp
  then have "to_double x = Num (round_double x)"
    by (rule to_double_finite)
  with close show ?thesis by blast
qed


section \<open>The scoring functions\<close>

lemmas score_defs =
  scoreSkiing_def scoreSurfing_def scoreOutdoorSightseeing_def scoreIndoorSightseeing_def

lemmas op64_defs = times64_def plus64_def minus64_def

lemma clamp_bounds: "0 \<le> max 0 (min 100 (x::real))" "max 0 (min 100 (x::real)) \<le> 100"
  by simp_all

lemma spec_clamp_max_min: "spec_clamp x = max 0 (min 100 x)"
  by (simp add: spec_clamp_def)

text \<open>
  Claim C3. For every weather record with numeric fields, each of the four scoring
  functions returns a value between 0 and 100, whatever the size of the fields
  (a snowfall of 1000 included).
\<close>

theorem scores_within_0_100:
  "0 \<le> scoreSkiing w \<and> scoreSkiing w \<le> 100 \<and>
   0 \<le> scoreSurfing w \<and> scoreSurfing w \<le> 100 \<and>
   0 \<le> scoreOutdoorSightseeing w \<and> scoreOutdoorSightseeing w \<le> 100 \<and>
   0 \<le> scoreIndoorSightseeing w \<and> scoreIndoorSightseeing w \<le> 100"
  unfolding score_defs Let_def by (intro conjI clamp_bounds)

lemma score_bounds:
  "0 \<le> scoreSkiing w \<and> scoreSkiing w \<le> 100"
  "0 \<le> scoreSurfing w \<and> scoreSurfing w \<le> 100"
  "0 \<le> scoreOutdoorSightseeing w \<and> scoreOutdoorSightseeing w \<le> 100"
  "0 \<le> scoreIndoorSightseeing w \<and> scoreIndoorSightseeing w \<le> 100"
  unfolding score_defs Let_def by (intro conjI clamp_bounds)+

text \<open>
  Claim C4. \<open>scoreSkiing\<close> computes the rule of the specification: baseline 0, plus
  \<open>min(50, snowfall * 5)\<close> when \<open>snowfall > 0\<close>, plus 30 when \<open>maxTemp < 2\<close> else plus 15
  when \<open>maxTemp < 7\<close>, minus 15 when \<open>windSpeed > 40\<close>, minus 10 when
  \<open>precipitation > 5\<close>, clamped to [0, 100]. The day with maxTemp 1, minTemp -5,
  precipitation 0, windSpeed 10, snowfall 4 and cloudCover 20 scores 50, whatever its date.
\<close>

theorem scoreSkiing_is_spec:
  "scoreSkiing w = spec_scoreSkiing w \<and>
   scoreSkiing \<lparr>DailyWeather.date = d, maxTemp = 1, minTemp = - 5, precipitation = 0,
                windSpeed = 10, snowfall = 4, cloudCover = 20\<rparr> = 50"
proof
  define a where "a = (if snowfall w > 0 then min 50 (times64 (snowfall w) 5) else 0)"
  define s1 where "s1 = plus64 0 a"
  define s2 where "s2 = plus64 s1 (if maxTemp w < 2 then 30 else if maxTemp w < 7 then 15 else 0)"
  define s3 where "s3 = minus64 s2 (if windSpeed w > 40 then 15 else 0)"
  define s4 where "s4 = minus64 s3 (if precipitation w > 5 then 10 else 0)"
  have r1: "round_double s1 = s1" and r2: "round_double s2 = s2" and r3: "round_double s3 = s3"
    by (simp_all add: s1_def s2_def s3_def op64_defs round_double_idem)
  have c1: "(if snowfall w > 0 then plus64 0 (min 50 (times64 (snowfall w) 5)) else 0) = s1"
    by (simp add: s1_def a_def plus64_def round_double_zero)
  have c2: "(if maxTemp w < 2 then plus64 s1 30 else if maxTemp w < 7 then plus64 s1 15 else s1)
      = s2"
    by (simp add: s2_def plus64_def r1)
  have c3: "(if windSpeed w > 40 then minus64 s2 15 else s2) = s3"
    by (simp add: s3_def minus64_def r2)
  have c4: "(if precipitation w > 5 then minus64 s3 10 else s3) = s4"
    by (simp add: s4_def minus64_def r3)
  have "scoreSkiing w = max 0 (min 100 s4)"
    unfolding scoreSkiing_def Let_def by (simp only: c1 c2 c3 c4)
  moreover have "spec_scoreSkiing w = max 0 (min 100 s4)"
    unfolding spec_scoreSkiing_def spec_clamp_max_min s4_def s3_def s2_def s1_def a_def ..
  ultimately show "scoreSkiing w = spec_scoreSkiing w"
    by simp
next
  show "scoreSkiing \<lparr>DailyWeather.date = d, maxTemp = 1, minTemp = - 5, precipitation = 0,
                windSpeed = 10, snowfall = 4, cloudCover = 20\<rparr> = 50"
    by (simp add: scoreSkiing_def op64_defs round_double_numeral)
qed

text \<open>
  Claim C5. In \<open>scoreSurfing\<close> the score is the clamped sum of the baseline 50, the wind
  adjustment, the temperature bonus and the rain penalty, where the wind adjustment is
  +25 exactly when \<open>10 < windSpeed < 35\<close> and -20 exactly when \<open>windSpeed > 40\<close>. For a
  wind speed in the closed interval [35, 40] the adjustment is 0: the score is the
  clamped sum of the baseline, the temperature bonus and the rain penalty alone.
\<close>

theorem scoreSurfing_wind:
  "scoreSurfing w =
     spec_clamp (50 + spec_surfingWind (windSpeed w)
        + (if maxTemp w > 18 then 20 else 0) - (if precipitation w > 8 then 15 else 0)) \<and>
   (spec_surfingWind v = 25) = (10 < v \<and> v < 35) \<and>
   (spec_surfingWind v = - 20) = (v > 40) \<and>
   (35 \<le> v \<and> v \<le> 40 \<longrightarrow> spec_surfingWind v = 0) \<and>
   (35 \<le> windSpeed w \<and> windSpeed w \<le> 40 \<longrightarrow>
      scoreSurfing w =
        spec_clamp (50 + (if maxTemp w > 18 then 20 else 0)
           - (if precipitation w > 8 then 15 else 0)))"
proof -
  have sum: "scoreSurfing w =
     spec_clamp (50 + spec_surfingWind (windSpeed w)
        + (if maxTemp w > 18 then 20 else 0) - (if precipitation w > 8 then 15 else 0))"
    unfolding scoreSurfing_def spec_surfingWind_def Let_def spec_clamp_max_min
    by (rule arg_cong [where f = "\<lambda>x. max 0 (min 100 x)"])
      (simp add: op64_defs round_double_numeral)
  have adj: "(spec_surfingWind v = 25) = (10 < v \<and> v < 35)"
    "(spec_surfingWind v = - 20) = (v > 40)"
    "35 \<le> v \<and> v \<le> 40 \<longrightarrow> spec_surfingWind v = 0" for v
    by (simp_all add: spec_surfingWind_def)
  have dead: "scoreSurfing w =
        spec_clamp (50 + (if maxTemp w > 18 then 20 else 0)
           - (if precipitation w > 8 then 15 else 0))"
    if "35 \<le> windSpeed w \<and> windSpeed w \<le> 40"
    using that adj(3) [of "windSpeed w"] by (simp add: sum)
  show ?thesis
    using sum adj dead by blast
qed

theorem scoreSurfing_wind_witness:
  "(35::real) \<le> 37 \<and> (37::real) \<le> 40 \<and> windSpeed breezyDay = 37 \<and>
   spec_surfingWind 37 = 0 \<and> scoreSurfing breezyDay = 70"
  using scoreSurfing_wind [of breezyDay 37]
  by (simp add: breezyDay_def spec_clamp_def)


lemma scoreIndoorSightseeing_exact:
  "scoreIndoorSightseeing w =
     max 0 (min 100
       ((if precipitation w > 5 then 85 else 70)
        + (if maxTemp w < 5 \<or> maxTemp w > 30 then 15 else 0)
        - (if precipitation w = 0 \<and> cloudCover w < 50 \<and> maxTemp w > 15 \<and> maxTemp w < 25
           then 20 else 0)))"
  unfolding scoreIndoorSightseeing_def Let_def
  by (rule arg_cong [where f = "\<lambda>x. max 0 (min 100 x)"])
    (simp add: op64_defs round_double_numeral)

lemma scoreIndoorSightseeing_bounds:
  "50 \<le> scoreIndoorSightseeing w \<and> scoreIndoorSightseeing w \<le> 100"
  unfolding scoreIndoorSightseeing_exact by (simp split: if_splits)

lemma scoreIndoorSightseeing_int: "scoreIndoorSightseeing w \<in> \<int>"
  unfolding scoreIndoorSightseeing_exact by simp

lemma round_double_halves: "round_double (1 / 2) = 1 / 2" "round_double (119 / 2) = 119 / 2"
  using round_double_exact [of "1 / 2" 1] round_double_exact [of "119 / 2" 119]
  by simp_all

lemma drizzleDay_scores:
  "scoreSkiing drizzleDay = 0" "scoreSurfing drizzleDay = 50"
  "scoreOutdoorSightseeing drizzleDay = 119 / 2" "scoreIndoorSightseeing drizzleDay = 70"
  by (simp_all add: score_defs drizzleDay_def op64_defs round_double_numeral
        round_double_halves)

lemma breezyDay_scores:
  "scoreSkiing breezyDay = 0" "scoreSurfing breezyDay = 70"
  "scoreOutdoorSightseeing breezyDay = 100" "scoreIndoorSightseeing breezyDay = 70"
  by (simp_all add: score_defs breezyDay_def op64_defs round_double_numeral)


section \<open>Sums and quotients of integer scores\<close>

lemma fold_add_exact:
  fixes xs :: "real list"
  assumes "\<And>x. x \<in> set xs \<Longrightarrow> x \<in> \<int> \<and> 0 \<le> x \<and> x \<le> 100"
    and "0 \<le> a" and "a + 100 * int (length xs) < 2 ^ 52"
  shows "foldl (\<lambda>s x. js_add s (Num x)) (Num (of_int a)) xs = Num (of_int a + sum_list xs)"
  using assms
proof (induction xs arbitrary: a)
  case Nil
  then show ?case by simp
next
  case (Cons x xs)
  from Cons.prems(1) [of x] obtain i where i: "x = of_int i" and i0: "0 \<le> i" and i100: "i \<le> 100"
    by (auto elim!: Ints_cases)
  have small: "\<bar>a + i\<bar> < 2 ^ 52"
    using Cons.prems(2,3) i0 i100 by simp
  have step: "js_add (Num (of_int a)) (Num (of_int i)) = Num (of_int (a + i))"
    using to_double_of_int [OF small] by (simp add: js_add_def)
  have rest: "foldl (\<lambda>s x. js_add s (Num x)) (Num (of_int (a + i))) xs =
          Num (of_int (a + i) + sum_list xs)"
    using Cons.prems i0 i100 by (intro Cons.IH) simp_all
  show ?case
    unfolding i by (simp only: foldl_Cons step rest) simp
qed

lemma scaled_le:
  fixes x N :: real and c d :: int
  assumes "0 < N" and "N = real n" and "x * N = of_int d" and "of_int c \<le> 2 * x"
  shows "c * int n \<le> 2 * d"
proof -
  have "of_int c * N \<le> 2 * x * N"
    using assms(1,4) by (intro mult_right_mono) simp_all
  then have "real_of_int c * real n \<le> 2 * real_of_int d"
    using assms(2,3) by (simp add: mult.assoc)
  then have "real_of_int (c * int n) \<le> real_of_int (2 * d)"
    by simp
  then show ?thesis
    by (simp only: of_int_le_iff)
qed

lemma scaled_less:
  fixes x N :: real and c d :: int
  assumes "0 < N" and "N = real n" and "x * N = of_int d" and "2 * x < of_int c"
  shows "2 * d < c * int n"
proof -
  have "2 * x * N < of_int c * N"
    using assms(1,4) by (intro mult_strict_right_mono) simp_all
  then have "2 * real_of_int d < real_of_int c * real n"
    using assms(2,3) by (simp add: mult.assoc)
  then have "real_of_int (2 * d) < real_of_int (c * int n)"
    by simp
  then show ?thesis
    by (simp only: of_int_less_iff)
qed

lemma unscaled_le:
  fixes x N :: real and c d :: int
  assumes "0 < N" and "N = real n" and "x * N = of_int d" and "c * int n + 1 \<le> 2 * d"
  shows "of_int c / 2 + 1 / (2 * N) \<le> x"
proof -
  have "real_of_int (c * int n + 1) \<le> real_of_int (2 * d)"
    using assms(4) by (simp only: of_int_le_iff)
  then have "of_int c * N + 1 \<le> 2 * (x * N)"
    using assms(2,3) by simp
  then have "(of_int c * N + 1) / (2 * N) \<le> 2 * (x * N) / (2 * N)"
    using assms(1) by (intro divide_right_mono) simp_all
  moreover have "(of_int c * N + 1) / (2 * N) = of_int c / 2 + 1 / (2 * N)"
    using assms(1) by (simp add: add_divide_distrib)
  moreover have "2 * (x * N) / (2 * N) = x"
    using assms(1) by simp
  ultimately show ?thesis by simp
qed

lemma unscaled_ge:
  fixes x N :: real and c d :: int
  assumes "0 < N" and "N = real n" and "x * N = of_int d" and "2 * d + 1 \<le> c * int n"
  shows "x \<le> of_int c / 2 - 1 / (2 * N)"
proof -
  have "real_of_int (2 * d + 1) \<le> real_of_int (c * int n)"
    using assms(4) by (simp only: of_int_le_iff)
  then have "2 * (x * N) \<le> of_int c * N - 1"
    using assms(2,3) by simp
  then have "2 * (x * N) / (2 * N) \<le> (of_int c * N - 1) / (2 * N)"
    using assms(1) by (intro divide_right_mono) simp_all
  moreover have "(of_int c * N - 1) / (2 * N) = of_int c / 2 - 1 / (2 * N)"
    using assms(1) by (simp add: diff_divide_distrib)
  moreover have "2 * (x * N) / (2 * N) = x"
    using assms(1) by simp
  ultimately show ?thesis by simp
qed

lemma quotient_round:
  fixes s :: int and n :: nat
  assumes "0 \<le> s" and "0 < n" and "n < 2 ^ 32" and "s \<le> 100 * int n"
  shows "Math_round (js_divide (Num (of_int s)) (Num (real n))) =
           Num (of_int \<lfloor>of_int s / real n + 1 / 2\<rfloor>)"
proof (cases "s = 0")
  case True
  then show ?thesis
    using assms(2) by (simp add: js_divide_def to_double_def round_double_zero Math_round_def)
next
  case False
  define x where "x = real_of_int s / real n"
  define N where "N = real n"
  define k where "k = \<lfloor>x + 1 / 2\<rfloor>"
  have N: "N = real n" by (rule N_def)
  have Npos: "0 < N" and Nlt: "N < 2 ^ 32"
    using assms(2,3) by (simp_all add: N_def)
  have xN: "x * N = real_of_int s"
    using Npos by (simp add: x_def N_def)
  have xpos: "0 < x"
    using False assms(1,2) by (simp add: x_def)
  have "real_of_int s \<le> real_of_int (100 * int n)"
    using assms(4) by (simp only: of_int_le_iff)
  then have "real_of_int s \<le> 100 * N"
    by (simp add: N_def)
  then have "x \<le> 100"
    using Npos by (simp add: x_def N_def pos_divide_le_eq)
  then have x128: "x < 128" by simp
  from to_double_close [OF xpos x128] obtain y
    where y: "to_double x = Num y" and close: "\<bar>y - x\<bar> \<le> 1 / 2 ^ 47"
    by blast
  have c1: "x - 1 / 2 ^ 47 \<le> y" and c2: "y \<le> x + 1 / 2 ^ 47"
    using close by (simp_all only: abs_le_iff) linarith+
  have "2 * N < 2 ^ 33"
    using Nlt by simp
  then have "1 / 2 ^ 33 < 1 / (2 * N)"
    using Npos by (intro divide_strict_left_mono) simp_all
  moreover have "(1::real) / 2 ^ 47 < 1 / 2 ^ 33"
    by simp
  ultimately have gap: "1 / 2 ^ 47 < 1 / (2 * N)"
    by (rule less_trans [rotated])
  have k1: "of_int k \<le> x + 1 / 2" and k2: "x + 1 / 2 < of_int k + 1"
    unfolding k_def by linarith+
  have lower: "of_int k \<le> y + 1 / 2"
  proof (cases "(2 * k - 1) * int n = 2 * s")
    case True
    then have "real_of_int ((2 * k - 1) * int n) = real_of_int (2 * s)"
      by (simp only:)
    then have "real_of_int (2 * k - 1) * N = 2 * (x * N)"
      by (simp add: N_def xN [unfolded N_def])
    then have "real_of_int (2 * k - 1) * N = (2 * x) * N"
      by (simp only: mult.assoc)
    then have "real_of_int (2 * k - 1) = 2 * x"
      using Npos by (simp only: mult_cancel_right) simp
    then have xeq: "x = of_int (2 * k - 1) / 2"
      by simp
    have "\<bar>x\<bar> < 2 ^ 52"
      using xpos x128 by simp
    with xeq have "to_double x = Num x"
      by (rule to_double_exact)
    with y have "y = x" by simp
    with k1 show ?thesis by simp
  next
    case neq: False
    have "real_of_int (2 * k - 1) \<le> 2 * x"
      using k1 by simp
    with Npos N xN have "(2 * k - 1) * int n \<le> 2 * s"
      by (rule scaled_le)
    with neq have "(2 * k - 1) * int n + 1 \<le> 2 * s" by simp
    with Npos N xN have "real_of_int (2 * k - 1) / 2 + 1 / (2 * N) \<le> x"
      by (rule unscaled_le)
    then have "real_of_int k - 1 / 2 + 1 / (2 * N) \<le> x"
      by (simp add: diff_divide_distrib)
    with gap c1 show ?thesis
      by linarith
  qed
  have upper: "y + 1 / 2 < of_int k + 1"
  proof -
    have "2 * x < real_of_int (2 * k + 1)"
      using k2 by simp
    with Npos N xN have "2 * s < (2 * k + 1) * int n"
      by (rule scaled_less)
    then have "2 * s + 1 \<le> (2 * k + 1) * int n" by simp
    with Npos N xN have "x \<le> real_of_int (2 * k + 1) / 2 - 1 / (2 * N)"
      by (rule unscaled_ge)
    then have "x \<le> real_of_int k + 1 / 2 - 1 / (2 * N)"
      by (simp add: add_divide_distrib)
    with gap c2 show ?thesis
      by linarith
  qed
  from lower upper have "\<lfloor>y + 1 / 2\<rfloor> = k"
    by (intro floor_unique) simp_all
  moreover have "js_divide (Num (of_int s)) (Num (real n)) = Num y"
    using assms(2) y by (simp add: js_divide_def x_def)
  ultimately show ?thesis
    by (simp add: Math_round_def k_def x_def)
qed

section \<open>The aggregation\<close>

subsection \<open>The fields of a ranking\<close>

lemma rankActivity_activity: "activity (rankActivity ws a) = name a"
  by (simp add: rankActivity_def Let_def)

lemma rankActivity_dailyScores:
  "dailyScores (rankActivity ws a) =
     map (\<lambda>day. \<lparr>date = DailyWeather.date day, score = scoreFn a day,
                  conditions = getConditionDescription (scoreFn a day)\<rparr>) ws"
  by (simp add: rankActivity_def Let_def)

lemma rankActivity_scores: "map score (dailyScores (rankActivity ws a)) = map (scoreFn a) ws"
  by (simp add: rankActivity_dailyScores comp_def)

lemma rankActivity_dates:
  "map date (dailyScores (rankActivity ws a)) = map DailyWeather.date ws"
  by (simp add: rankActivity_dailyScores comp_def)

lemma rankActivity_labels:
  "list_all (\<lambda>d. conditions d = getConditionDescription (score d))
     (dailyScores (rankActivity ws a))"
  by (simp add: rankActivity_dailyScores list_all_iff)

lemma rankActivity_averageScore:
  "averageScore (rankActivity ws a) =
     Math_round (js_divide (foldl (\<lambda>s x. js_add s (Num x)) (Num 0) (map (scoreFn a) ws))
                           (Num (real (length ws))))"
  by (simp add: rankActivity_def Let_def foldl_map comp_def)

lemma calculateActivityRankings_unfold:
  "calculateActivityRankings ws =
     [rankActivity ws \<lparr>name = ''Skiing'', scoreFn = scoreSkiing\<rparr>,
      rankActivity ws \<lparr>name = ''Surfing'', scoreFn = scoreSurfing\<rparr>,
      rankActivity ws \<lparr>name = ''Outdoor Sightseeing'', scoreFn = scoreOutdoorSightseeing\<rparr>,
      rankActivity ws \<lparr>name = ''Indoor Sightseeing'', scoreFn = scoreIndoorSightseeing\<rparr>]"
  by (simp add: calculateActivityRankings_def activities_def)



lemma indoor_ranking:
  "calculateActivityRankings ws ! 3 =
     rankActivity ws \<lparr>name = ''Indoor Sightseeing'', scoreFn = scoreIndoorSightseeing\<rparr>"
  by (simp add: calculateActivityRankings_unfold numeral_3_eq_3)

lemma activities_scoreFn_bounds:
  assumes "a \<in> set activities"
  shows "0 \<le> scoreFn a w \<and> scoreFn a w \<le> 100"
proof -
  from assms have "scoreFn a = scoreSkiing \<or> scoreFn a = scoreSurfing \<or>
      scoreFn a = scoreOutdoorSightseeing \<or> scoreFn a = scoreIndoorSightseeing"
    by (auto simp add: activities_def)
  then show ?thesis
    using score_bounds [of w] by (elim disjE) simp_all
qed

subsection \<open>Order of the output\<close>

text \<open>
  Claim C8. For every input, \<open>calculateActivityRankings\<close> returns one ranking per
  activity in the order Skiing, Surfing, Outdoor Sightseeing, Indoor Sightseeing, whatever
  the scores; in each ranking \<open>dailyScores\<close> has one entry per input day, in the order
  of the input, with the date of that day and the score of that day for that activity.
\<close>

theorem rankings_fixed_order:
  "map activity (calculateActivityRankings weatherData) =
     [''Skiing'', ''Surfing'', ''Outdoor Sightseeing'', ''Indoor Sightseeing''] \<and>
   map (\<lambda>r. map date (dailyScores r)) (calculateActivityRankings weatherData) =
     replicate 4 (map DailyWeather.date weatherData) \<and>
   map (\<lambda>r. map score (dailyScores r)) (calculateActivityRankings weatherData) =
     [map scoreSkiing weatherData, map scoreSurfing weatherData,
      map scoreOutdoorSightseeing weatherData, map scoreIndoorSightseeing weatherData]"
  by (simp add: calculateActivityRankings_unfold rankActivity_activity rankActivity_dates
        rankActivity_scores numeral_eq_Suc)

subsection \<open>Labels\<close>

text \<open>
  Claim C9. For every day of every ranking that \<open>calculateActivityRankings\<close> returns, the
  label \<open>conditions\<close> is \<open>getConditionDescription\<close> of the stored score of the same
  entry, where the label is Great from 75, Good from 60, OK from 40 and Poor below 40.
\<close>

theorem conditions_match_score:
  "list_all (\<lambda>r. list_all (\<lambda>d. conditions d = getConditionDescription (score d))
                    (dailyScores r))
     (calculateActivityRankings weatherData) \<and>
   (getConditionDescription s = ''Great'') = (s \<ge> 75) \<and>
   (getConditionDescription s = ''Good'') = (60 \<le> s \<and> s < 75) \<and>
   (getConditionDescription s = ''OK'') = (40 \<le> s \<and> s < 60) \<and>
   (getConditionDescription s = ''Poor'') = (s < 40)"
proof -
  have "list_all (\<lambda>r. list_all (\<lambda>d. conditions d = getConditionDescription (score d))
                         (dailyScores r))
          (calculateActivityRankings weatherData)"
    by (simp add: calculateActivityRankings_unfold rankActivity_labels)
  moreover have "(getConditionDescription s = ''Great'') = (s \<ge> 75)"
    "(getConditionDescription s = ''Good'') = (60 \<le> s \<and> s < 75)"
    "(getConditionDescription s = ''OK'') = (40 \<le> s \<and> s < 60)"
    "(getConditionDescription s = ''Poor'') = (s < 40)"
    by (simp_all add: getConditionDescription_def)
  ultimately show ?thesis
    by blast
qed

subsection \<open>The average\<close>

lemma spec_roundHalfUp_floor: "spec_roundHalfUp x = \<lfloor>x + 1 / 2\<rfloor>"
proof (cases "x - of_int \<lfloor>x\<rfloor> < 1 / 2")
  case True
  have "of_int \<lfloor>x\<rfloor> \<le> x + 1 / 2" "x + 1 / 2 < of_int \<lfloor>x\<rfloor> + 1"
    using True of_int_floor_le [of x] by linarith+
  then have "\<lfloor>x + 1 / 2\<rfloor> = \<lfloor>x\<rfloor>"
    by (rule floor_unique)
  with True show ?thesis
    by (simp add: spec_roundHalfUp_def)
next
  case False
  have "of_int (\<lfloor>x\<rfloor> + 1) \<le> x + 1 / 2" "x + 1 / 2 < of_int (\<lfloor>x\<rfloor> + 1) + 1"
    using False floor_correct [of x] by simp_all linarith+
  then have "\<lfloor>x + 1 / 2\<rfloor> = \<lfloor>x\<rfloor> + 1"
    by (rule floor_unique)
  with False show ?thesis
    by (simp add: spec_roundHalfUp_def)
qed

lemma sum_list_bounds:
  fixes f :: "'a \<Rightarrow> real"
  assumes "\<And>x. lo \<le> f x \<and> f x \<le> hi"
  shows "lo * real (length xs) \<le> sum_list (map f xs) \<and>
         sum_list (map f xs) \<le> hi * real (length xs)"
proof (induction xs)
  case Nil
  show ?case by simp
next
  case (Cons x xs)
  from assms [of x] Cons show ?case
    by (simp add: algebra_simps)
qed

lemma mean_bounds:
  fixes f :: "'a \<Rightarrow> real"
  assumes "\<And>x. lo \<le> f x \<and> f x \<le> hi" and "xs \<noteq> []"
  shows "lo \<le> sum_list (map f xs) / real (length xs) \<and>
         sum_list (map f xs) / real (length xs) \<le> hi"
proof -
  have pos: "0 < real (length xs)"
    using assms(2) by simp
  from sum_list_bounds [of lo f hi xs, OF assms(1)] pos show ?thesis
    by (simp add: pos_le_divide_eq pos_divide_le_eq)
qed

lemma round_bounds:
  fixes m :: real
  assumes "of_int lo \<le> m" and "m \<le> of_int hi"
  shows "lo \<le> \<lfloor>m + 1 / 2\<rfloor> \<and> \<lfloor>m + 1 / 2\<rfloor> \<le> hi"
proof
  have "of_int lo \<le> m + 1 / 2"
    using assms(1) by simp
  then show "lo \<le> \<lfloor>m + 1 / 2\<rfloor>"
    by (simp add: le_floor_iff)
next
  have "m + 1 / 2 < of_int hi + 1"
    using assms(2) by simp
  then show "\<lfloor>m + 1 / 2\<rfloor> \<le> hi"
    by (simp add: floor_le_iff)
qed

lemma sum_list_int_bounds:
  fixes xs :: "real list"
  assumes "\<And>x. x \<in> set xs \<Longrightarrow> x \<in> \<int> \<and> 0 \<le> x \<and> x \<le> 100"
  shows "\<exists>s. sum_list xs = of_int s \<and> 0 \<le> s \<and> s \<le> 100 * int (length xs)"
  using assms
proof (induction xs)
  case Nil
  show ?case by simp
next
  case (Cons x xs)
  from Cons.prems [of x] obtain i where i: "x = of_int i" "0 \<le> i" "i \<le> 100"
    by (auto elim!: Ints_cases)
  from Cons obtain s where s: "sum_list xs = of_int s" "0 \<le> s" "s \<le> 100 * int (length xs)"
    by auto
  have "sum_list (x # xs) = of_int (i + s)"
    by (simp add: i(1) s(1))
  moreover have "0 \<le> i + s" "i + s \<le> 100 * int (length (x # xs))"
    using i s by simp_all
  ultimately show ?case by blast
qed

lemma rankActivity_average_integer:
  assumes "ws \<noteq> []" and "length ws < 2 ^ 32"
    and "\<And>w. w \<in> set ws \<Longrightarrow> scoreFn a w \<in> \<int> \<and> 0 \<le> scoreFn a w \<and> scoreFn a w \<le> 100"
  shows "averageScore (rankActivity ws a) =
           Num (of_int (spec_roundHalfUp (spec_mean (map (scoreFn a) ws))))"
proof -
  let ?xs = "map (scoreFn a) ws"
  have xs: "x \<in> \<int> \<and> 0 \<le> x \<and> x \<le> 100" if "x \<in> set ?xs" for x
    using that assms(3) by auto
  from sum_list_int_bounds [of ?xs, OF xs] obtain s
    where s: "sum_list ?xs = of_int s" "0 \<le> s" "s \<le> 100 * int (length ws)"
    by auto
  have "int (length ws) < 2 ^ 32"
    using assms(2) by (metis of_nat_less_numeral_power_cancel_iff)
  then have "100 * int (length ?xs) < 100 * 2 ^ 32"
    by simp
  also have "\<dots> < (2::int) ^ 52"
    by simp
  finally have small: "0 + 100 * int (length ?xs) < 2 ^ 52"
    by simp
  have "foldl (\<lambda>s x. js_add s (Num x)) (Num (of_int 0)) ?xs = Num (of_int 0 + sum_list ?xs)"
    using xs small by (intro fold_add_exact) simp_all
  then have total: "foldl (\<lambda>s x. js_add s (Num x)) (Num 0) ?xs = Num (of_int s)"
    by (simp add: s(1))
  have "0 < length ws"
    using assms(1) by simp
  from quotient_round [OF s(2) this assms(2) s(3)]
  have "averageScore (rankActivity ws a) =
          Num (of_int \<lfloor>of_int s / real (length ws) + 1 / 2\<rfloor>)"
    by (simp only: rankActivity_averageScore total)
  then show ?thesis
    by (simp add: spec_roundHalfUp_floor spec_mean_def s(1))
qed

lemma ranking_average_integer:
  assumes "ws \<noteq> []" and "length ws < 2 ^ 32" and "a \<in> set activities"
    and "list_all (\<lambda>d. score d \<in> \<int>) (dailyScores (rankActivity ws a))"
  shows "averageScore (rankActivity ws a) =
           Num (of_int (spec_roundHalfUp (spec_mean (map score (dailyScores (rankActivity ws a))))))"
proof -
  have "scoreFn a w \<in> \<int>" if "w \<in> set ws" for w
    using that assms(4) by (simp add: rankActivity_dailyScores list_all_iff)
  with activities_scoreFn_bounds [OF assms(3)]
  have "averageScore (rankActivity ws a) =
          Num (of_int (spec_roundHalfUp (spec_mean (map (scoreFn a) ws))))"
    by (intro rankActivity_average_integer assms(1,2)) simp
  then show ?thesis
    by (simp only: rankActivity_scores)
qed
























subsection \<open>The empty forecast\<close>

text \<open>
  The source has no \<^verbatim>\<open>throw\<close> and does not test the length of its input. On the
  empty array both \<^verbatim>\<open>map\<close> calls and \<^verbatim>\<open>reduce\<close> return normally, the average is
  \<^verbatim>\<open>Math.round(0 / 0)\<close>, and the function returns the four rankings below.
\<close>

theorem empty_input_returns_NaN:
  "calculateActivityRankings [] =
     [\<lparr>activity = ''Skiing'', averageScore = NaN, dailyScores = [],
       recommendation = ''Not the best week for Skiing.''\<rparr>,
      \<lparr>activity = ''Surfing'', averageScore = NaN, dailyScores = [],
       recommendation = ''Not the best week for Surfing.''\<rparr>,
      \<lparr>activity = ''Outdoor Sightseeing'', averageScore = NaN, dailyScores = [],
       recommendation = ''Not the best week for Outdoor Sightseeing.''\<rparr>,
      \<lparr>activity = ''Indoor Sightseeing'', averageScore = NaN, dailyScores = [],
       recommendation = ''Not the best week for Indoor Sightseeing.''\<rparr>]"
  by (simp add: calculateActivityRankings_unfold rankActivity_def js_divide_def Math_round_def
        getRecommendation_def js_ge_def)

text \<open>
  Claim C1, as amended. For the empty input sequence \<open>calculateActivityRankings\<close> raises
  no error: it returns one ranking per activity, in the order of the enumeration, each
  with an empty \<open>dailyScores\<close>.
\<close>

theorem empty_input_returns_rankings:
  "map activity (calculateActivityRankings []) =
     [''Skiing'', ''Surfing'', ''Outdoor Sightseeing'', ''Indoor Sightseeing''] \<and>
   map dailyScores (calculateActivityRankings []) = [[], [], [], []]"
  by (simp add: calculateActivityRankings_unfold rankActivity_activity rankActivity_dailyScores)

subsection \<open>Fractional daily scores\<close>

lemma half_not_int: "(119 / 2 :: real) \<notin> \<int>"
proof
  assume "(119 / 2 :: real) \<in> \<int>"
  then have "real_of_int \<lfloor>119 / 2 :: real\<rfloor> = 119 / 2"
    by (rule of_int_floor)
  then show False
    by simp
qed

text \<open>
  Claim C2. The stored per-day score is the value the scoring function returns, with no
  rounding. For the single day \<open>drizzleDay\<close> (0.25 mm of rain) the Outdoor Sightseeing
  entry stores 60 - 0.25 * 2 = 59.5, which is not an integer, and the label is computed
  from 59.5 as well. The GraphQL schema of the repository declares this field as
  \<^verbatim>\<open>score: Int!\<close>.
\<close>

theorem outdoor_score_not_rounded:
  "activity (calculateActivityRankings [drizzleDay] ! 2) = ''Outdoor Sightseeing'' \<and>
   dailyScores (calculateActivityRankings [drizzleDay] ! 2) =
     [\<lparr>date = ''2024-01-01'', score = 119 / 2, conditions = ''OK''\<rparr>] \<and>
   (119 / 2 :: real) \<notin> \<int>"
  by (simp add: calculateActivityRankings_unfold rankActivity_activity rankActivity_dailyScores
        drizzleDay_scores getConditionDescription_def half_not_int)
    (simp add: drizzleDay_def)

subsection \<open>Indoor Sightseeing\<close>

text \<open>
  Claim C10, as amended. For every weather record with numeric fields,
  \<open>scoreIndoorSightseeing\<close> returns a value between 50 and 100, so no Indoor Sightseeing
  day has the label Poor, and for every non-empty sequence of days the \<open>averageScore\<close>
  of Indoor Sightseeing is an integer between 50 and 100. A sequence of days is a
  JavaScript array, which has fewer than \<open>2^32\<close> elements; the total of the scores is
  then below \<open>2^53\<close> and every addition of \<^verbatim>\<open>reduce\<close> is exact.
\<close>

theorem indoor_at_least_50:
  "50 \<le> scoreIndoorSightseeing w \<and> scoreIndoorSightseeing w \<le> 100 \<and>
   getConditionDescription (scoreIndoorSightseeing w) \<noteq> ''Poor'' \<and>
   activity (calculateActivityRankings ws ! 3) = ''Indoor Sightseeing'' \<and>
   list_all (\<lambda>d. conditions d \<noteq> ''Poor'') (dailyScores (calculateActivityRankings ws ! 3)) \<and>
   (ws \<noteq> [] \<and> length ws < 2 ^ 32 \<longrightarrow>
      (\<exists>n. averageScore (calculateActivityRankings ws ! 3) = Num (of_int n) \<and>
           50 \<le> n \<and> n \<le> 100))"
proof -
  let ?indoor = "\<lparr>name = ''Indoor Sightseeing'', scoreFn = scoreIndoorSightseeing\<rparr>"
  let ?m = "sum_list (map scoreIndoorSightseeing ws) / real (length ws)"
  have label: "getConditionDescription (scoreIndoorSightseeing v) \<noteq> ''Poor''" for v
    using scoreIndoorSightseeing_bounds [of v] by (simp add: getConditionDescription_def)
  have days: "list_all (\<lambda>d. conditions d \<noteq> ''Poor'') (dailyScores (rankActivity ws ?indoor))"
    by (simp add: rankActivity_dailyScores list_all_iff label)
  have avg: "\<exists>n. averageScore (rankActivity ws ?indoor) = Num (of_int n) \<and> 50 \<le> n \<and> n \<le> 100"
    if ne: "ws \<noteq> []" and len: "length ws < 2 ^ 32"
  proof -
    have "averageScore (rankActivity ws ?indoor) =
            Num (of_int (spec_roundHalfUp (spec_mean (map (scoreFn ?indoor) ws))))"
      using ne len score_bounds(4) scoreIndoorSightseeing_int
      by (intro rankActivity_average_integer) simp_all
    then have "averageScore (rankActivity ws ?indoor) = Num (of_int \<lfloor>?m + 1 / 2\<rfloor>)"
      by (simp add: spec_roundHalfUp_floor spec_mean_def)
    moreover have "50 \<le> \<lfloor>?m + 1 / 2\<rfloor> \<and> \<lfloor>?m + 1 / 2\<rfloor> \<le> 100"
      using mean_bounds [of 50 scoreIndoorSightseeing 100 ws, OF scoreIndoorSightseeing_bounds ne]
      by (intro round_bounds) simp_all
    ultimately show ?thesis
      by blast
  qed
  show ?thesis
    using scoreIndoorSightseeing_bounds [of w] label [of w] days avg
    by (simp add: indoor_ranking rankActivity_activity)
qed

theorem indoor_at_least_50_witness:
  "[drizzleDay, breezyDay] \<noteq> [] \<and> length [drizzleDay, breezyDay] < 2 ^ 32 \<and>
   averageScore (calculateActivityRankings [drizzleDay, breezyDay] ! 3) = Num (real_of_int 70) \<and>
   (50::int) \<le> 70 \<and> (70::int) \<le> 100"
proof -
  let ?indoor = "\<lparr>name = ''Indoor Sightseeing'', scoreFn = scoreIndoorSightseeing\<rparr>"
  let ?ws = "[drizzleDay, breezyDay]"
  have "averageScore (rankActivity ?ws ?indoor) =
          Num (of_int (spec_roundHalfUp (spec_mean (map score (dailyScores (rankActivity ?ws ?indoor))))))"
    by (rule ranking_average_integer)
      (simp_all add: activities_def rankActivity_dailyScores drizzleDay_scores breezyDay_scores)
  then have "averageScore (rankActivity ?ws ?indoor) = Num 70"
    by (simp add: rankActivity_scores drizzleDay_scores breezyDay_scores spec_mean_def
          spec_roundHalfUp_def)
  then show ?thesis
    using indoor_at_least_50 [of drizzleDay ?ws]
    by (simp add: indoor_ranking)
qed

text \<open>
  On the empty input the \<open>averageScore\<close> of Indoor Sightseeing is NaN, and the
  comparison \<^verbatim>\<open>NaN >= 50\<close> is false.
\<close>

theorem indoor_average_empty_input:
  "activity (calculateActivityRankings [] ! 3) = ''Indoor Sightseeing'' \<and>
   averageScore (calculateActivityRankings [] ! 3) = NaN \<and>
   \<not> js_ge (averageScore (calculateActivityRankings [] ! 3)) 50"
  by (simp add: indoor_ranking rankActivity_activity rankActivity_averageScore js_divide_def
        Math_round_def js_ge_def)

end
